theory Spec2Isabelle
  imports Main "HOL-Library.Sublist"
begin

section \<open>Values, objects and the three registries\<close>

text \<open>
  The module \<^verbatim>\<open>lib/classes/many_to_many.py\<close> defines three classes, each with a
  class-level list \<^verbatim>\<open>all\<close> of its instances. Python values that reach the
  constructors and setters are dynamically typed, so arguments are values of
  \<open>pyval\<close>; \<^verbatim>\<open>isinstance(v, Author)\<close> is the test for the constructor
  \<open>AuthorRef\<close>, and so on. An object is identified by its address, a natural
  number indexing the store of its class; none of the classes defines
  \<^verbatim>\<open>__eq__\<close> or \<^verbatim>\<open>__hash__\<close>, so \<^verbatim>\<open>==\<close>, dictionary keys and set
  members compare addresses. A \<open>string\<close> stands for a Python \<^verbatim>\<open>str\<close>; only its
  length is ever inspected.
\<close>

datatype pyval =
    PyNone
  | PyInt int
  | PyStr (str_of: string)
  | AuthorRef (author_of: nat)
  | MagazineRef (magazine_of: nat)
  | ArticleRef (article_of: nat)

datatype error =
    Exception string
  | AttributeError

record Author =
  Author_name :: string

record Magazine =
  Magazine_name :: string
  Magazine_category :: string

record Article =
  Article_title :: string
  Article_author :: nat
  Article_magazine :: nat

text \<open>
  The state of the process: one store per class (the objects, by address) and the
  three class attributes \<^verbatim>\<open>Author.all\<close>, \<^verbatim>\<open>Magazine.all\<close> and
  \<^verbatim>\<open>Article.all\<close>, lists of addresses. The object that Python allocates for a
  constructor call whose \<^verbatim>\<open>__init__\<close> raises is never bound to a name and is
  not part of the state.
\<close>

record state =
  Author_objs :: "Author list"
  Magazine_objs :: "Magazine list"
  Article_objs :: "Article list"
  Author_all :: "nat list"
  Magazine_all :: "nat list"
  Article_all :: "nat list"

definition init_state :: state where
  "init_state = \<lparr>Author_objs = [], Magazine_objs = [], Article_objs = [],
     Author_all = [], Magazine_all = [], Article_all = []\<rparr>"

fun is_Author :: "pyval \<Rightarrow> bool" where
  "is_Author (AuthorRef a) = True"
| "is_Author v = False"

fun is_Magazine :: "pyval \<Rightarrow> bool" where
  "is_Magazine (MagazineRef m) = True"
| "is_Magazine v = False"

fun is_str :: "pyval \<Rightarrow> bool" where
  "is_str (PyStr t) = True"
| "is_str v = False"

section \<open>Article\<close>

text \<open>
  \<^verbatim>\<open>Article.__init__(self, author, magazine, title)\<close>: the four checks in the
  order of the source, then the three assignments and the append to
  \<^verbatim>\<open>Article.all\<close>. The result pairs what the call gives its caller (the
  exception raised, or the new object) with the state it leaves behind. The
  selectors \<open>str_of\<close>, \<open>author_of\<close> and \<open>magazine_of\<close> are only applied
  behind the \<^verbatim>\<open>isinstance\<close> check for their constructor.
\<close>

definition Article_init :: "state \<Rightarrow> pyval \<Rightarrow> pyval \<Rightarrow> pyval \<Rightarrow> (error + pyval) \<times> state" where
  "Article_init s author magazine title =
     (if \<not> is_Author author
      then (Inl (Exception ''Author must be an instance of Author class''), s)
      else if \<not> is_Magazine magazine
      then (Inl (Exception ''Magazine must be an instance of Magazine class''), s)
      else if \<not> is_str title
      then (Inl (Exception ''Title must be a string''), s)
      else if \<not> (5 \<le> length (str_of title) \<and> length (str_of title) \<le> 50)
      then (Inl (Exception ''Title must be between 5 and 50 characters inclusive''), s)
      else (Inr (ArticleRef (length (Article_objs s))),
            s\<lparr>Article_objs := Article_objs s @
                 [\<lparr>Article_title = str_of title, Article_author = author_of author,
                   Article_magazine = magazine_of magazine\<rparr>],
              Article_all := Article_all s @ [length (Article_objs s)]\<rparr>))"

text \<open>The read accessors \<^verbatim>\<open>title\<close>, \<^verbatim>\<open>author\<close> and \<^verbatim>\<open>magazine\<close>.\<close>

definition Article_title_get :: "state \<Rightarrow> nat \<Rightarrow> string" where
  "Article_title_get s self = Article_title (Article_objs s ! self)"

definition Article_author_get :: "state \<Rightarrow> nat \<Rightarrow> nat" where
  "Article_author_get s self = Article_author (Article_objs s ! self)"

definition Article_magazine_get :: "state \<Rightarrow> nat \<Rightarrow> nat" where
  "Article_magazine_get s self = Article_magazine (Article_objs s ! self)"

text \<open>
  \<^verbatim>\<open>title\<close> is a property with no setter: an assignment \<^verbatim>\<open>article.title = v\<close>
  raises \<^verbatim>\<open>AttributeError\<close> before any attribute is written.
\<close>

definition Article_title_set :: "state \<Rightarrow> nat \<Rightarrow> pyval \<Rightarrow> (error + unit) \<times> state" where
  "Article_title_set s self v = (Inl AttributeError, s)"

definition Article_author_set :: "state \<Rightarrow> nat \<Rightarrow> pyval \<Rightarrow> (error + unit) \<times> state" where
  "Article_author_set s self new_author =
     (if \<not> is_Author new_author
      then (Inl (Exception ''Author must be an instance of Author class''), s)
      else (Inr (), s\<lparr>Article_objs := (Article_objs s)
        [self := (Article_objs s ! self)\<lparr>Article_author := author_of new_author\<rparr>]\<rparr>))"

definition Article_magazine_set :: "state \<Rightarrow> nat \<Rightarrow> pyval \<Rightarrow> (error + unit) \<times> state" where
  "Article_magazine_set s self new_magazine =
     (if \<not> is_Magazine new_magazine
      then (Inl (Exception ''Magazine must be an instance of Magazine class''), s)
      else (Inr (), s\<lparr>Article_objs := (Article_objs s)
        [self := (Article_objs s ! self)\<lparr>Article_magazine := magazine_of new_magazine\<rparr>]\<rparr>))"

section \<open>Author\<close>

definition Author_init :: "state \<Rightarrow> pyval \<Rightarrow> (error + pyval) \<times> state" where
  "Author_init s name =
     (if \<not> is_str name
      then (Inl (Exception ''Name must be a string''), s)
      else if length (str_of name) \<le> 0
      then (Inl (Exception ''Name must be longer than 0 characters''), s)
      else (Inr (AuthorRef (length (Author_objs s))),
            s\<lparr>Author_objs := Author_objs s @ [\<lparr>Author_name = str_of name\<rparr>],
              Author_all := Author_all s @ [length (Author_objs s)]\<rparr>))"

definition Author_name_get :: "state \<Rightarrow> nat \<Rightarrow> string" where
  "Author_name_get s self = Author_name (Author_objs s ! self)"

text \<open>\<^verbatim>\<open>name\<close> of an author is a property with no setter, like \<^verbatim>\<open>title\<close>.\<close>

definition Author_name_set :: "state \<Rightarrow> nat \<Rightarrow> pyval \<Rightarrow> (error + unit) \<times> state" where
  "Author_name_set s self v = (Inl AttributeError, s)"

text \<open>
  \<^verbatim>\<open>[article for article in Article.all if article.author == self]\<close>
\<close>

definition Author_articles :: "state \<Rightarrow> nat \<Rightarrow> nat list" where
  "Author_articles s self =
     filter (\<lambda>article. Article_author_get s article = self) (Article_all s)"

text \<open>
  \<^verbatim>\<open>list(set(xs))\<close>: the elements of \<open>xs\<close> without repetition. Python does not
  specify the order in which a set is iterated; the order chosen here is one of the
  possible ones and no statement below depends on it.
\<close>

definition list_of_set :: "'a list \<Rightarrow> 'a list" where
  "list_of_set xs = remdups xs"

definition Author_magazines :: "state \<Rightarrow> nat \<Rightarrow> nat list" where
  "Author_magazines s self =
     list_of_set (map (Article_magazine_get s) (Author_articles s self))"

definition Author_add_article :: "state \<Rightarrow> nat \<Rightarrow> pyval \<Rightarrow> pyval \<Rightarrow> (error + pyval) \<times> state" where
  "Author_add_article s self magazine title =
     (if \<not> is_Magazine magazine
      then (Inl (Exception ''Magazine must be an instance of Magazine class''), s)
      else Article_init s (AuthorRef self) magazine title)"

definition Magazine_category_get :: "state \<Rightarrow> nat \<Rightarrow> string" where
  "Magazine_category_get s self = Magazine_category (Magazine_objs s ! self)"

definition Magazine_name_get :: "state \<Rightarrow> nat \<Rightarrow> string" where
  "Magazine_name_get s self = Magazine_name (Magazine_objs s ! self)"

text \<open>\<^verbatim>\<open>topic_areas\<close>: \<open>None\<close> is Python's \<^verbatim>\<open>None\<close>, \<open>Some xs\<close> the list.\<close>

definition Author_topic_areas :: "state \<Rightarrow> nat \<Rightarrow> string list option" where
  "Author_topic_areas s self =
     (if Author_articles s self = [] then None
      else Some (list_of_set
        (map (\<lambda>article. Magazine_category_get s (Article_magazine_get s article))
             (Author_articles s self))))"

section \<open>Magazine\<close>

definition Magazine_init :: "state \<Rightarrow> pyval \<Rightarrow> pyval \<Rightarrow> (error + pyval) \<times> state" where
  "Magazine_init s name category =
     (if \<not> is_str name
      then (Inl (Exception ''Name must be a string''), s)
      else if \<not> (2 \<le> length (str_of name) \<and> length (str_of name) \<le> 16)
      then (Inl (Exception ''Name must be between 2 and 16 characters inclusive''), s)
      else if \<not> is_str category
      then (Inl (Exception ''Category must be a string''), s)
      else if length (str_of category) \<le> 0
      then (Inl (Exception ''Category must be longer than 0 characters''), s)
      else (Inr (MagazineRef (length (Magazine_objs s))),
            s\<lparr>Magazine_objs := Magazine_objs s @
                 [\<lparr>Magazine_name = str_of name, Magazine_category = str_of category\<rparr>],
              Magazine_all := Magazine_all s @ [length (Magazine_objs s)]\<rparr>))"

definition Magazine_name_set :: "state \<Rightarrow> nat \<Rightarrow> pyval \<Rightarrow> (error + unit) \<times> state" where
  "Magazine_name_set s self new_name =
     (if \<not> is_str new_name
      then (Inl (Exception ''Name must be a string''), s)
      else if \<not> (2 \<le> length (str_of new_name) \<and> length (str_of new_name) \<le> 16)
      then (Inl (Exception ''Name must be between 2 and 16 characters inclusive''), s)
      else (Inr (), s\<lparr>Magazine_objs := (Magazine_objs s)
        [self := (Magazine_objs s ! self)\<lparr>Magazine_name := str_of new_name\<rparr>]\<rparr>))"

definition Magazine_category_set :: "state \<Rightarrow> nat \<Rightarrow> pyval \<Rightarrow> (error + unit) \<times> state" where
  "Magazine_category_set s self new_category =
     (if \<not> is_str new_category
      then (Inl (Exception ''Category must be a string''), s)
      else if length (str_of new_category) \<le> 0
      then (Inl (Exception ''Category must be longer than 0 characters''), s)
      else (Inr (), s\<lparr>Magazine_objs := (Magazine_objs s)
        [self := (Magazine_objs s ! self)\<lparr>Magazine_category := str_of new_category\<rparr>]\<rparr>))"

definition Magazine_articles :: "state \<Rightarrow> nat \<Rightarrow> nat list" where
  "Magazine_articles s self =
     filter (\<lambda>article. Article_magazine_get s article = self) (Article_all s)"

definition Magazine_contributors :: "state \<Rightarrow> nat \<Rightarrow> nat list" where
  "Magazine_contributors s self =
     list_of_set (map (Article_author_get s) (Magazine_articles s self))"

definition Magazine_article_titles :: "state \<Rightarrow> nat \<Rightarrow> string list option" where
  "Magazine_article_titles s self =
     (let articles_list = Magazine_articles s self
      in if articles_list = [] then None
         else Some (map (Article_title_get s) articles_list))"

text \<open>
  A Python \<^verbatim>\<open>dict\<close> keeps its keys in insertion order, and both counting loops
  read it back in that order, so it is an association list: \<^verbatim>\<open>d.get(k, v)\<close>,
  and \<^verbatim>\<open>d[k] = v\<close>, which overwrites the value of a key in place and puts a new
  key at the end.
\<close>

fun dict_get :: "('k \<times> 'v) list \<Rightarrow> 'k \<Rightarrow> 'v \<Rightarrow> 'v" where
  "dict_get [] k v = v"
| "dict_get ((k', v') # d) k v = (if k' = k then v' else dict_get d k v)"

fun dict_set :: "('k \<times> 'v) list \<Rightarrow> 'k \<Rightarrow> 'v \<Rightarrow> ('k \<times> 'v) list" where
  "dict_set [] k v = [(k, v)]"
| "dict_set ((k', v') # d) k v =
     (if k' = k then (k, v) # d else (k', v') # dict_set d k v)"

text \<open>
  The loop shared by \<^verbatim>\<open>contributing_authors\<close> and \<^verbatim>\<open>top_publisher\<close>:
  \<^verbatim>\<open>for x in xs: counts[x] = counts.get(x, 0) + 1\<close>.
\<close>

fun count_loop :: "'k list \<Rightarrow> ('k \<times> nat) list \<Rightarrow> ('k \<times> nat) list" where
  "count_loop [] counts = counts"
| "count_loop (x # xs) counts =
     count_loop xs (dict_set counts x (dict_get counts x 0 + 1))"

definition Magazine_contributing_authors :: "state \<Rightarrow> nat \<Rightarrow> nat list option" where
  "Magazine_contributing_authors s self =
     (let author_counts = count_loop (map (Article_author_get s) (Magazine_articles s self)) [];
          prolific_authors = map fst (filter (\<lambda>(author, count). count > 2) author_counts)
      in if prolific_authors = [] then None else Some prolific_authors)"

text \<open>
  \<^verbatim>\<open>max(items, key=f)\<close> scans from the left and replaces the candidate only when
  a strictly larger key is met, so the first maximal item is returned.
\<close>

fun max_from :: "('a \<Rightarrow> nat) \<Rightarrow> 'a \<Rightarrow> 'a list \<Rightarrow> 'a" where
  "max_from key best [] = best"
| "max_from key best (x # xs) =
     (if key x > key best then max_from key x xs else max_from key best xs)"

definition Magazine_top_publisher :: "state \<Rightarrow> nat option" where
  "Magazine_top_publisher s =
     (if Article_all s = [] then None
      else (case count_loop (map (Article_magazine_get s) (Article_all s)) [] of
              [] \<Rightarrow> None
            | item # items \<Rightarrow> Some (fst (max_from snd item items))))"

section \<open>States and programs over the public operations\<close>

text \<open>
  What holds of the state after any run of the operations above, started from empty
  registries: each registry lists the objects of its class in the order of their
  construction, and every stored field passed its validation.
\<close>

definition wf_state :: "state \<Rightarrow> bool" where
  "wf_state s \<longleftrightarrow>
     Author_all s = [0..<length (Author_objs s)] \<and>
     Magazine_all s = [0..<length (Magazine_objs s)] \<and>
     Article_all s = [0..<length (Article_objs s)] \<and>
     list_all (\<lambda>a. 0 < length (Author_name a)) (Author_objs s) \<and>
     list_all (\<lambda>m. 2 \<le> length (Magazine_name m) \<and> length (Magazine_name m) \<le> 16 \<and>
                   0 < length (Magazine_category m)) (Magazine_objs s) \<and>
     list_all (\<lambda>x. 5 \<le> length (Article_title x) \<and> length (Article_title x) \<le> 50)
              (Article_objs s)"

text \<open>A value a Python program can hold in the state \<open>s\<close>: a reference is the
  address of an object that exists.\<close>

fun wf_val :: "state \<Rightarrow> pyval \<Rightarrow> bool" where
  "wf_val s (AuthorRef a) = (a < length (Author_objs s))"
| "wf_val s (MagazineRef m) = (m < length (Magazine_objs s))"
| "wf_val s (ArticleRef x) = (x < length (Article_objs s))"
| "wf_val s v = True"

text \<open>
  The operations of the module that can change the state, as a caller invokes them:
  the three constructors, \<^verbatim>\<open>add_article\<close>, and an assignment to each of the
  six properties (on the object whose address is the first argument).
\<close>

datatype command =
    New_Author pyval
  | New_Magazine pyval pyval
  | New_Article pyval pyval pyval
  | Call_add_article nat pyval pyval
  | Assign_title nat pyval
  | Assign_author nat pyval
  | Assign_magazine nat pyval
  | Assign_Author_name nat pyval
  | Assign_name nat pyval
  | Assign_category nat pyval

fun step :: "state \<Rightarrow> command \<Rightarrow> state" where
  "step s (New_Author name) = snd (Author_init s name)"
| "step s (New_Magazine name category) = snd (Magazine_init s name category)"
| "step s (New_Article author magazine title) = snd (Article_init s author magazine title)"
| "step s (Call_add_article self magazine title) =
     snd (Author_add_article s self magazine title)"
| "step s (Assign_title self v) = snd (Article_title_set s self v)"
| "step s (Assign_author self v) = snd (Article_author_set s self v)"
| "step s (Assign_magazine self v) = snd (Article_magazine_set s self v)"
| "step s (Assign_Author_name self v) = snd (Author_name_set s self v)"
| "step s (Assign_name self v) = snd (Magazine_name_set s self v)"
| "step s (Assign_category self v) = snd (Magazine_category_set s self v)"

text \<open>A program is a list of operations; an exception raised by one of them is
  caught by the caller, and the next operation runs in the state left behind.\<close>

fun run :: "state \<Rightarrow> command list \<Rightarrow> state" where
  "run s [] = s"
| "run s (c # cs) = run (step s c) cs"

text \<open>
  A small program for concrete evaluation: two authors, two magazines, and six
  articles of which five are in the first magazine, three by the first author and
  two by the second.
\<close>

definition demo_program :: "command list" where
  "demo_program =
    [New_Author (PyStr ''Ama''),
     New_Author (PyStr ''Kofi''),
     New_Magazine (PyStr ''Vogue'') (PyStr ''Fashion''),
     New_Magazine (PyStr ''Wired'') (PyStr ''Tech''),
     New_Article (AuthorRef 1) (MagazineRef 1) (PyStr ''Chips today''),
     New_Article (AuthorRef 0) (MagazineRef 0) (PyStr ''Spring looks''),
     New_Article (AuthorRef 0) (MagazineRef 0) (PyStr ''Summer looks''),
     New_Article (AuthorRef 1) (MagazineRef 0) (PyStr ''Hats again''),
     Call_add_article 0 (MagazineRef 0) (PyStr ''Autumn looks''),
     New_Article (AuthorRef 1) (MagazineRef 0) (PyStr ''Boots again'')]"

definition demo_state :: state where
  "demo_state = run init_state demo_program"

text \<open>
  Three magazines and five articles; the magazines of the articles are, in the order
  of \<^verbatim>\<open>Article.all\<close>, the third, the first, the second, the first, the second.
  The first and the second magazine tie with two articles each, and the earliest
  article of all is in neither.
\<close>

definition tie_program :: "command list" where
  "tie_program =
    [New_Author (PyStr ''Ama''),
     New_Magazine (PyStr ''Vogue'') (PyStr ''Fashion''),
     New_Magazine (PyStr ''Wired'') (PyStr ''Tech''),
     New_Magazine (PyStr ''Granta'') (PyStr ''Books''),
     New_Article (AuthorRef 0) (MagazineRef 2) (PyStr ''Short story''),
     New_Article (AuthorRef 0) (MagazineRef 0) (PyStr ''Spring looks''),
     New_Article (AuthorRef 0) (MagazineRef 1) (PyStr ''Chips today''),
     New_Article (AuthorRef 0) (MagazineRef 0) (PyStr ''Summer looks''),
     New_Article (AuthorRef 0) (MagazineRef 1) (PyStr ''Chips tomorrow'')]"

definition tie_state :: state where
  "tie_state = run init_state tie_program"

section \<open>Basic facts\<close>

lemmas op_defs = Article_init_def Article_title_set_def Article_author_set_def
  Article_magazine_set_def Author_init_def Author_name_set_def Author_add_article_def
  Magazine_init_def Magazine_name_set_def Magazine_category_set_def

lemma is_Author_iff: "is_Author v \<longleftrightarrow> (\<exists>a. v = AuthorRef a)"
  by (cases v) simp_all

lemma is_Magazine_iff: "is_Magazine v \<longleftrightarrow> (\<exists>m. v = MagazineRef m)"
  by (cases v) simp_all

lemma is_str_iff: "is_str v \<longleftrightarrow> (\<exists>t. v = PyStr t)"
  by (cases v) simp_all

lemma nth_update_if:
  "j < length xs \<Longrightarrow> xs[i := x] ! j = (if i = j then x else xs ! j)"
  by (simp add: nth_list_update)

text \<open>Every operation keeps the state well formed, whatever its arguments and
  whether or not it raises; so does every program.\<close>

lemma wf_state_step: "wf_state s \<Longrightarrow> wf_state (step s c)"
  by (cases c)
    (auto simp: wf_state_def op_defs list_all_length nth_update_if nth_append less_Suc_eq
       is_Author_iff is_Magazine_iff is_str_iff split: if_splits)

lemma wf_state_run: "wf_state s \<Longrightarrow> wf_state (run s cs)"
  by (induction cs arbitrary: s) (simp_all add: wf_state_step)

lemma wf_init_state: "wf_state init_state"
  by (simp add: wf_state_def init_state_def)

lemma demo_state_eq:
  "demo_state =
    \<lparr>Author_objs = [\<lparr>Author_name = ''Ama''\<rparr>, \<lparr>Author_name = ''Kofi''\<rparr>],
     Magazine_objs =
       [\<lparr>Magazine_name = ''Vogue'', Magazine_category = ''Fashion''\<rparr>,
        \<lparr>Magazine_name = ''Wired'', Magazine_category = ''Tech''\<rparr>],
     Article_objs =
       [\<lparr>Article_title = ''Chips today'', Article_author = 1, Article_magazine = 1\<rparr>,
        \<lparr>Article_title = ''Spring looks'', Article_author = 0, Article_magazine = 0\<rparr>,
        \<lparr>Article_title = ''Summer looks'', Article_author = 0, Article_magazine = 0\<rparr>,
        \<lparr>Article_title = ''Hats again'', Article_author = 1, Article_magazine = 0\<rparr>,
        \<lparr>Article_title = ''Autumn looks'', Article_author = 0, Article_magazine = 0\<rparr>,
        \<lparr>Article_title = ''Boots again'', Article_author = 1, Article_magazine = 0\<rparr>],
     Author_all = [0, 1], Magazine_all = [0, 1], Article_all = [0, 1, 2, 3, 4, 5]\<rparr>"
  by (simp add: demo_state_def demo_program_def init_state_def op_defs)

lemma wf_demo_state: "wf_state demo_state"
  unfolding demo_state_def by (rule wf_state_run [OF wf_init_state])

section \<open>Construction of an article\<close>

text \<open>
  C1. In a well-formed state, and for arguments that are values of that state,
  \<^verbatim>\<open>Article(author, magazine, title)\<close> returns an article exactly when
  \<open>author\<close> is an \<^verbatim>\<open>Author\<close> listed in \<^verbatim>\<open>Author.all\<close>, \<open>magazine\<close> is a
  \<^verbatim>\<open>Magazine\<close> listed in \<^verbatim>\<open>Magazine.all\<close>, and \<open>title\<close> is a string of
  5 to 50 characters. For every string shorter than 5 or longer than 50, and
  whatever the other two arguments are, the call raises the module's validation
  exception and leaves the whole state, so also \<^verbatim>\<open>Article.all\<close>, as it was.
\<close>

theorem Article_init_succeeds_iff:
  assumes "wf_state s" and "wf_val s author" and "wf_val s magazine"
  shows "((\<exists>r. fst (Article_init s author magazine title) = Inr r) \<longleftrightarrow>
            (\<exists>a. author = AuthorRef a \<and> a \<in> set (Author_all s)) \<and>
            (\<exists>m. magazine = MagazineRef m \<and> m \<in> set (Magazine_all s)) \<and>
            (\<exists>t. title = PyStr t \<and> 5 \<le> length t \<and> length t \<le> 50)) \<and>
         (\<forall>author' magazine' t. length t < 5 \<or> 50 < length t \<longrightarrow>
            (\<exists>msg. Article_init s author' magazine' (PyStr t) = (Inl (Exception msg), s)))"
proof (intro conjI allI impI)
  show "(\<exists>r. fst (Article_init s author magazine title) = Inr r) \<longleftrightarrow>
            (\<exists>a. author = AuthorRef a \<and> a \<in> set (Author_all s)) \<and>
            (\<exists>m. magazine = MagazineRef m \<and> m \<in> set (Magazine_all s)) \<and>
            (\<exists>t. title = PyStr t \<and> 5 \<le> length t \<and> length t \<le> 50)"
    using assms
    by (auto simp: Article_init_def wf_state_def is_Author_iff is_Magazine_iff is_str_iff)
next
  fix author' magazine' t
  assume "length (t::string) < 5 \<or> 50 < length t"
  then show "\<exists>msg. Article_init s author' magazine' (PyStr t) = (Inl (Exception msg), s)"
    by (auto simp: Article_init_def)
qed

theorem Article_init_succeeds_iff_witness:
  "wf_state demo_state \<and> wf_val demo_state (AuthorRef 1) \<and> wf_val demo_state (MagazineRef 0) \<and>
   fst (Article_init demo_state (AuthorRef 1) (MagazineRef 0) (PyStr ''Shoes'')) = Inr (ArticleRef 6) \<and>
   Article_all (snd (Article_init demo_state (AuthorRef 1) (MagazineRef 0) (PyStr ''Shoes''))) =
     [0, 1, 2, 3, 4, 5, 6] \<and>
   (\<exists>msg. Article_init demo_state (AuthorRef 1) (MagazineRef 0) (PyStr ''Shoe'') =
     (Inl (Exception msg), demo_state))"
  using Article_init_succeeds_iff
    [OF wf_demo_state, of "AuthorRef 1" "MagazineRef 0" "PyStr ''Shoes''"]
  by (simp add: wf_demo_state) (simp add: demo_state_eq Article_init_def)

section \<open>Failure leaves the state untouched\<close>

lemma Author_init_fail: "fst (Author_init s name) = Inl e \<Longrightarrow> snd (Author_init s name) = s"
  by (auto simp: Author_init_def split: if_splits)

lemma Magazine_init_fail:
  "fst (Magazine_init s name category) = Inl e \<Longrightarrow> snd (Magazine_init s name category) = s"
  by (auto simp: Magazine_init_def split: if_splits)

lemma Article_init_fail:
  "fst (Article_init s author magazine title) = Inl e \<Longrightarrow>
   snd (Article_init s author magazine title) = s"
  by (auto simp: Article_init_def split: if_splits)

lemma Author_add_article_fail:
  "fst (Author_add_article s self magazine title) = Inl e \<Longrightarrow>
   snd (Author_add_article s self magazine title) = s"
  by (auto simp: Author_add_article_def Article_init_fail split: if_splits)

lemma Magazine_name_set_fail:
  "fst (Magazine_name_set s self v) = Inl e \<Longrightarrow> snd (Magazine_name_set s self v) = s"
  by (auto simp: Magazine_name_set_def split: if_splits)

lemma Magazine_category_set_fail:
  "fst (Magazine_category_set s self v) = Inl e \<Longrightarrow> snd (Magazine_category_set s self v) = s"
  by (auto simp: Magazine_category_set_def split: if_splits)

lemma Article_author_set_fail:
  "fst (Article_author_set s self v) = Inl e \<Longrightarrow> snd (Article_author_set s self v) = s"
  by (auto simp: Article_author_set_def split: if_splits)

lemma Article_magazine_set_fail:
  "fst (Article_magazine_set s self v) = Inl e \<Longrightarrow> snd (Article_magazine_set s self v) = s"
  by (auto simp: Article_magazine_set_def split: if_splits)

text \<open>
  C6. Whenever a constructor (\<^verbatim>\<open>Author\<close>, \<^verbatim>\<open>Magazine\<close>, \<^verbatim>\<open>Article\<close>, also
  through \<^verbatim>\<open>add_article\<close>) or a setter (\<^verbatim>\<open>Magazine.name\<close>,
  \<^verbatim>\<open>Magazine.category\<close>, \<^verbatim>\<open>Article.author\<close>, \<^verbatim>\<open>Article.magazine\<close>) raises, the
  state after the call is the state before it: no registry has grown and no field of
  any object has changed.
\<close>

theorem failed_operation_leaves_state:
  "(fst (Author_init s a_name) = Inl e1 \<longrightarrow> snd (Author_init s a_name) = s) \<and>
   (fst (Magazine_init s m_name m_category) = Inl e2 \<longrightarrow>
      snd (Magazine_init s m_name m_category) = s) \<and>
   (fst (Article_init s author magazine title) = Inl e3 \<longrightarrow>
      snd (Article_init s author magazine title) = s) \<and>
   (fst (Author_add_article s self magazine' title') = Inl e4 \<longrightarrow>
      snd (Author_add_article s self magazine' title') = s) \<and>
   (fst (Magazine_name_set s m new_name) = Inl e5 \<longrightarrow>
      snd (Magazine_name_set s m new_name) = s) \<and>
   (fst (Magazine_category_set s m new_category) = Inl e6 \<longrightarrow>
      snd (Magazine_category_set s m new_category) = s) \<and>
   (fst (Article_author_set s x new_author) = Inl e7 \<longrightarrow>
      snd (Article_author_set s x new_author) = s) \<and>
   (fst (Article_magazine_set s x new_magazine) = Inl e8 \<longrightarrow>
      snd (Article_magazine_set s x new_magazine) = s)"
  by (intro conjI impI Author_init_fail Magazine_init_fail Article_init_fail
      Author_add_article_fail Magazine_name_set_fail Magazine_category_set_fail
      Article_author_set_fail Article_magazine_set_fail)

theorem failed_operation_leaves_state_witness:
  "Author_init demo_state (PyStr []) =
     (Inl (Exception ''Name must be longer than 0 characters''), demo_state) \<and>
   Magazine_init demo_state (PyStr ''Vogue'') (PyStr []) =
     (Inl (Exception ''Category must be longer than 0 characters''), demo_state) \<and>
   Article_init demo_state (AuthorRef 0) (MagazineRef 0) (PyStr ''Shoe'') =
     (Inl (Exception ''Title must be between 5 and 50 characters inclusive''), demo_state) \<and>
   Author_add_article demo_state 0 (MagazineRef 0) (PyInt 7) =
     (Inl (Exception ''Title must be a string''), demo_state) \<and>
   Magazine_name_set demo_state 0 (PyStr ''V'') =
     (Inl (Exception ''Name must be between 2 and 16 characters inclusive''), demo_state) \<and>
   Magazine_category_set demo_state 0 PyNone =
     (Inl (Exception ''Category must be a string''), demo_state) \<and>
   Article_author_set demo_state 1 (MagazineRef 0) =
     (Inl (Exception ''Author must be an instance of Author class''), demo_state) \<and>
   Article_magazine_set demo_state 1 (AuthorRef 0) =
     (Inl (Exception ''Magazine must be an instance of Magazine class''), demo_state)"
  using failed_operation_leaves_state
    [where s = demo_state and a_name = "PyStr []"
       and ?e1.0 = "Exception ''Name must be longer than 0 characters''"
       and m_name = "PyStr ''Vogue''" and m_category = "PyStr []"
       and ?e2.0 = "Exception ''Category must be longer than 0 characters''"
       and author = "AuthorRef 0" and magazine = "MagazineRef 0" and title = "PyStr ''Shoe''"
       and ?e3.0 = "Exception ''Title must be between 5 and 50 characters inclusive''"
       and self = 0 and magazine' = "MagazineRef 0" and title' = "PyInt 7"
       and ?e4.0 = "Exception ''Title must be a string''"
       and m = 0 and new_name = "PyStr ''V''"
       and ?e5.0 = "Exception ''Name must be between 2 and 16 characters inclusive''"
       and new_category = PyNone
       and ?e6.0 = "Exception ''Category must be a string''"
       and x = 1 and new_author = "MagazineRef 0"
       and ?e7.0 = "Exception ''Author must be an instance of Author class''"
       and new_magazine = "AuthorRef 0"
       and ?e8.0 = "Exception ''Magazine must be an instance of Magazine class''"]
  by (simp add: op_defs)

section \<open>Validation looks at type and length only\<close>

text \<open>
  C10. Any string of at least one character, whatever its content (a single space
  in the instance below), is accepted as an author's name and as a magazine's
  category, at construction and on assignment; any string of 2 to 16 characters is
  accepted as a magazine's name, at construction and on assignment. In each case the
  string is stored as given.
\<close>

theorem validation_by_type_and_length_only:
  assumes "1 \<le> length c" and "2 \<le> length n" and "length n \<le> 16"
    and "m < length (Magazine_objs s)"
  shows "fst (Author_init s (PyStr c)) = Inr (AuthorRef (length (Author_objs s))) \<and>
         Author_name_get (snd (Author_init s (PyStr c))) (length (Author_objs s)) = c \<and>
         fst (Magazine_category_set s m (PyStr c)) = Inr () \<and>
         Magazine_category_get (snd (Magazine_category_set s m (PyStr c))) m = c \<and>
         fst (Magazine_init s (PyStr n) (PyStr c)) = Inr (MagazineRef (length (Magazine_objs s))) \<and>
         Magazine_name_get (snd (Magazine_init s (PyStr n) (PyStr c))) (length (Magazine_objs s)) = n \<and>
         fst (Magazine_name_set s m (PyStr n)) = Inr () \<and>
         Magazine_name_get (snd (Magazine_name_set s m (PyStr n))) m = n"
  using assms
  by (cases c) (simp_all add: op_defs Author_name_get_def Magazine_category_get_def
    Magazine_name_get_def)

theorem validation_by_type_and_length_only_witness:
  "1 \<le> length '' '' \<and> 2 \<le> length ''  '' \<and> length ''  '' \<le> 16 \<and>
   1 < length (Magazine_objs demo_state) \<and>
   fst (Author_init demo_state (PyStr '' '')) = Inr (AuthorRef 2) \<and>
   fst (Magazine_category_set demo_state 1 (PyStr '' '')) = Inr () \<and>
   Magazine_category_get (snd (Magazine_category_set demo_state 1 (PyStr '' ''))) 1 = '' '' \<and>
   fst (Magazine_init demo_state (PyStr ''  '') (PyStr '' '')) = Inr (MagazineRef 2) \<and>
   fst (Magazine_name_set demo_state 1 (PyStr ''  '')) = Inr () \<and>
   Magazine_name_get (snd (Magazine_name_set demo_state 1 (PyStr ''  ''))) 1 = ''  ''"
  using validation_by_type_and_length_only [of "'' ''" "''  ''" 1 demo_state]
  by (simp add: demo_state_eq)

section \<open>The name of a magazine\<close>

lemma wf_state_Magazine_name:
  "wf_state s \<Longrightarrow> m < length (Magazine_objs s) \<Longrightarrow>
   2 \<le> length (Magazine_name_get s m) \<and> length (Magazine_name_get s m) \<le> 16"
  by (simp add: wf_state_def list_all_length Magazine_name_get_def)

lemma Magazine_name_set_invalid:
  "\<not> (\<exists>t. v = PyStr t \<and> 2 \<le> length t \<and> length t \<le> 16) \<Longrightarrow>
   \<exists>msg. Magazine_name_set s self v = (Inl (Exception msg), s)"
  by (cases v) (auto simp: Magazine_name_set_def)

text \<open>
  C2. After any program run from a well-formed state, the name of every magazine
  has 2 to 16 characters; and in any state, assigning to \<^verbatim>\<open>name\<close> a value that is
  not a string of 2 to 16 characters raises the validation exception and leaves the
  state, so also the name, as it was.
\<close>

theorem Magazine_name_length_invariant:
  assumes "wf_state s" and "m < length (Magazine_objs (run s cs))"
  shows "2 \<le> length (Magazine_name_get (run s cs) m) \<and>
         length (Magazine_name_get (run s cs) m) \<le> 16 \<and>
         (\<forall>s' self v. \<not> (\<exists>t. v = PyStr t \<and> 2 \<le> length t \<and> length t \<le> 16) \<longrightarrow>
            (\<exists>msg. Magazine_name_set s' self v = (Inl (Exception msg), s')) \<and>
            Magazine_name_get (snd (Magazine_name_set s' self v)) self = Magazine_name_get s' self)"
proof -
  have "wf_state (run s cs)"
    using assms(1) by (rule wf_state_run)
  then have "2 \<le> length (Magazine_name_get (run s cs) m) \<and>
      length (Magazine_name_get (run s cs) m) \<le> 16"
    using assms(2) by (rule wf_state_Magazine_name)
  moreover have "(\<exists>msg. Magazine_name_set s' self v = (Inl (Exception msg), s')) \<and>
      Magazine_name_get (snd (Magazine_name_set s' self v)) self = Magazine_name_get s' self"
    if "\<not> (\<exists>t. v = PyStr t \<and> 2 \<le> length t \<and> length t \<le> 16)" for s' self v
    using Magazine_name_set_invalid [OF that, of s' self] by auto
  ultimately show ?thesis by blast
qed

theorem Magazine_name_length_invariant_witness:
  "wf_state demo_state \<and>
   0 < length (Magazine_objs (run demo_state
         [Assign_name 0 (PyStr ''Elle''), Assign_name 0 (PyStr ''E''), Assign_name 0 (PyInt 4)])) \<and>
   Magazine_name_get (run demo_state
         [Assign_name 0 (PyStr ''Elle''), Assign_name 0 (PyStr ''E''), Assign_name 0 (PyInt 4)]) 0
     = ''Elle'' \<and>
   (\<exists>msg. Magazine_name_set demo_state 0 (PyStr ''E'') = (Inl (Exception msg), demo_state))"
  using Magazine_name_length_invariant [OF wf_demo_state,
    of 0 "[Assign_name 0 (PyStr ''Elle''), Assign_name 0 (PyStr ''E''), Assign_name 0 (PyInt 4)]"]
  by (simp add: wf_demo_state) (simp add: demo_state_eq Magazine_name_set_def Magazine_name_get_def)

section \<open>The title of an article\<close>

lemma wf_state_Article_title:
  "wf_state s \<Longrightarrow> x < length (Article_objs s) \<Longrightarrow>
   5 \<le> length (Article_title_get s x) \<and> length (Article_title_get s x) \<le> 50"
  by (simp add: wf_state_def list_all_length Article_title_get_def)

lemma step_Article_title:
  "x < length (Article_objs s) \<Longrightarrow>
   x < length (Article_objs (step s c)) \<and>
   Article_title (Article_objs (step s c) ! x) = Article_title (Article_objs s ! x)"
  by (cases c) (auto simp: op_defs nth_append nth_update_if)

lemma run_Article_title:
  "x < length (Article_objs s) \<Longrightarrow>
   x < length (Article_objs (run s cs)) \<and>
   Article_title (Article_objs (run s cs) ! x) = Article_title (Article_objs s ! x)"
proof (induction cs arbitrary: s)
  case Nil
  then show ?case by simp
next
  case (Cons c cs)
  from step_Article_title [OF Cons.prems, of c] Cons.IH [of "step s c"]
  show ?case by simp
qed

lemma Article_init_title:
  "Article_init s author magazine title = (Inr (ArticleRef x), s') \<Longrightarrow>
   x < length (Article_objs s') \<and> Article_title (Article_objs s' ! x) = str_of title"
  by (auto simp: Article_init_def split: if_splits)

text \<open>
  C8. The title of an article never changes: after any program, the title of an
  article that existed before is what it was, with 5 to 50 characters; an assignment
  to \<^verbatim>\<open>title\<close> raises \<^verbatim>\<open>AttributeError\<close> and changes nothing; and the title
  read after any program that follows a construction is the string the constructor
  was given.
\<close>

theorem Article_title_immutable:
  assumes "wf_state s" and "x < length (Article_objs s)"
  shows "Article_title_get (run s cs) x = Article_title_get s x \<and>
         5 \<le> length (Article_title_get (run s cs) x) \<and>
         length (Article_title_get (run s cs) x) \<le> 50 \<and>
         Article_title_set s x v = (Inl AttributeError, s) \<and>
         (\<forall>s0 author magazine title x0.
            Article_init s0 author magazine title = (Inr (ArticleRef x0), s) \<longrightarrow>
            Article_title_get (run s cs) x0 = str_of title)"
proof -
  have same: "Article_title_get (run s cs) x = Article_title_get s x"
    using run_Article_title [OF assms(2), of cs] by (simp add: Article_title_get_def)
  have "5 \<le> length (Article_title_get s x) \<and> length (Article_title_get s x) \<le> 50"
    using assms by (rule wf_state_Article_title)
  moreover have "Article_title_get (run s cs) x0 = str_of title"
    if "Article_init s0 author magazine title = (Inr (ArticleRef x0), s)"
    for s0 author magazine title x0
    using Article_init_title [OF that] run_Article_title [of x0 s cs]
    by (simp add: Article_title_get_def)
  ultimately show ?thesis
    using same by (simp add: Article_title_set_def)
qed

theorem Article_title_immutable_witness:
  "wf_state demo_state \<and> 1 < length (Article_objs demo_state) \<and>
   Article_title_get (run demo_state
      [Assign_title 1 (PyStr ''Winter looks''), Assign_author 1 (AuthorRef 1),
       Assign_magazine 1 (MagazineRef 1), New_Article (AuthorRef 0) (MagazineRef 0) (PyStr ''Scarves'')]) 1
     = ''Spring looks'' \<and>
   Article_title_set demo_state 1 (PyStr ''Winter looks'') = (Inl AttributeError, demo_state)"
  using Article_title_immutable [OF wf_demo_state, of 1
      "[Assign_title 1 (PyStr ''Winter looks''), Assign_author 1 (AuthorRef 1),
       Assign_magazine 1 (MagazineRef 1), New_Article (AuthorRef 0) (MagazineRef 0) (PyStr ''Scarves'')]"
      "PyStr ''Winter looks''"]
  by (simp add: wf_demo_state) (simp add: demo_state_eq Article_title_get_def op_defs)

section \<open>The articles and the topic areas of an author\<close>

lemma Author_articles_after_set:
  assumes "wf_state s" and "x \<in> set (Article_all s)"
  shows "Author_articles (snd (Article_author_set s x (AuthorRef b))) c =
         filter (\<lambda>y. if y = x then c = b else Article_author_get s y = c) (Article_all s)"
proof -
  from assms(1) have "y < length (Article_objs s)" if "y \<in> set (Article_all s)" for y
    using that by (simp add: wf_state_def)
  then have "Article_author_get (snd (Article_author_set s x (AuthorRef b))) y =
      (if y = x then b else Article_author_get s y)" if "y \<in> set (Article_all s)" for y
    using that by (simp add: Article_author_set_def Article_author_get_def nth_update_if)
  moreover have "Article_all (snd (Article_author_set s x (AuthorRef b))) = Article_all s"
    by (simp add: Article_author_set_def)
  ultimately show ?thesis
    by (auto simp: Author_articles_def intro!: filter_cong)
qed

lemma Author_articles_after_init:
  assumes "wf_state s"
    and "Article_init s (AuthorRef b) magazine title = (Inr (ArticleRef x), s')"
  shows "Author_articles s' c = (if c = b then Author_articles s c @ [x] else Author_articles s c)"
proof -
  from assms(2) have s': "s' = s\<lparr>Article_objs := Article_objs s @
        [\<lparr>Article_title = str_of title, Article_author = b,
          Article_magazine = magazine_of magazine\<rparr>],
      Article_all := Article_all s @ [length (Article_objs s)]\<rparr>"
    and x: "x = length (Article_objs s)"
    by (auto simp: Article_init_def split: if_splits)
  have "Article_author_get s' y = Article_author_get s y" if "y \<in> set (Article_all s)" for y
    using that assms(1) by (simp add: s' wf_state_def Article_author_get_def nth_append)
  then have "filter (\<lambda>y. Article_author_get s' y = c) (Article_all s) =
      filter (\<lambda>y. Article_author_get s y = c) (Article_all s)"
    by (auto intro!: filter_cong)
  moreover have "Article_author_get s' x = b"
    by (simp add: s' x Article_author_get_def)
  moreover have "Article_all s' = Article_all s @ [x]"
    by (simp add: s' x)
  ultimately show ?thesis
    by (simp add: Author_articles_def)
qed

text \<open>
  C5. \<^verbatim>\<open>author.articles()\<close> holds exactly the articles of \<^verbatim>\<open>Article.all\<close> whose
  \<^verbatim>\<open>author\<close> field is this author, in the order of \<^verbatim>\<open>Article.all\<close>. It follows
  the field: once \<^verbatim>\<open>article.author = b\<close> has run, the article is among the
  articles of \<open>b\<close> and of no other author, and nothing else has changed in any
  author's articles; and a newly constructed article comes last among the articles
  of its author and is absent from those of the others.
\<close>

theorem Author_articles_exact:
  assumes "wf_state s"
  shows "set (Author_articles s a) = {x \<in> set (Article_all s). Article_author_get s x = a} \<and>
         subseq (Author_articles s a) (Article_all s) \<and>
         (\<forall>x b c. x \<in> set (Article_all s) \<longrightarrow>
            fst (Article_author_set s x (AuthorRef b)) = Inr () \<and>
            x \<in> set (Author_articles (snd (Article_author_set s x (AuthorRef b))) b) \<and>
            (c \<noteq> b \<longrightarrow> x \<notin> set (Author_articles (snd (Article_author_set s x (AuthorRef b))) c)) \<and>
            filter (\<lambda>y. y \<noteq> x) (Author_articles (snd (Article_author_set s x (AuthorRef b))) c) =
              filter (\<lambda>y. y \<noteq> x) (Author_articles s c)) \<and>
         (\<forall>b magazine title x s'.
            Article_init s (AuthorRef b) magazine title = (Inr (ArticleRef x), s') \<longrightarrow>
            Author_articles s' b = Author_articles s b @ [x] \<and>
            (\<forall>c. c \<noteq> b \<longrightarrow> Author_articles s' c = Author_articles s c))"
proof (intro conjI allI impI)
  show "set (Author_articles s a) = {x \<in> set (Article_all s). Article_author_get s x = a}"
    by (auto simp: Author_articles_def)
  show "subseq (Author_articles s a) (Article_all s)"
    by (simp add: Author_articles_def)
next
  fix x b c
  assume x: "x \<in> set (Article_all s)"
  note upd = Author_articles_after_set [OF assms x]
  show "fst (Article_author_set s x (AuthorRef b)) = Inr ()"
    by (simp add: Article_author_set_def)
  show "x \<in> set (Author_articles (snd (Article_author_set s x (AuthorRef b))) b)"
    using x by (simp add: upd)
  show "x \<notin> set (Author_articles (snd (Article_author_set s x (AuthorRef b))) c)" if "c \<noteq> b"
    using that by (simp add: upd)
  show "filter (\<lambda>y. y \<noteq> x) (Author_articles (snd (Article_author_set s x (AuthorRef b))) c) =
      filter (\<lambda>y. y \<noteq> x) (Author_articles s c)"
    unfolding upd by (auto simp: Author_articles_def intro!: filter_cong)
next
  fix b magazine title x s'
  assume init: "Article_init s (AuthorRef b) magazine title = (Inr (ArticleRef x), s')"
  show "Author_articles s' b = Author_articles s b @ [x]"
    using Author_articles_after_init [OF assms init, of b] by simp
  show "Author_articles s' c = Author_articles s c" if "c \<noteq> b" for c
    using Author_articles_after_init [OF assms init, of c] that by simp
qed

theorem Author_articles_exact_witness:
  "wf_state demo_state \<and> 2 \<in> set (Article_all demo_state) \<and>
   Author_articles demo_state 0 = [1, 2, 4] \<and>
   Author_articles demo_state 1 = [0, 3, 5] \<and>
   2 \<in> set (Author_articles (snd (Article_author_set demo_state 2 (AuthorRef 1))) 1) \<and>
   2 \<notin> set (Author_articles (snd (Article_author_set demo_state 2 (AuthorRef 1))) 0) \<and>
   Author_articles (snd (Article_author_set demo_state 2 (AuthorRef 1))) 0 = [1, 4] \<and>
   Author_articles (snd (Article_author_set demo_state 2 (AuthorRef 1))) 1 = [0, 2, 3, 5]"
proof -
  have mem: "2 \<in> set (Article_all demo_state)"
    by (simp add: demo_state_eq)
  note moved = Author_articles_exact [OF wf_demo_state, of 0, THEN conjunct2, THEN conjunct2,
      THEN conjunct1, rule_format, OF mem, of 1 0]
  have "2 \<in> set (Author_articles (snd (Article_author_set demo_state 2 (AuthorRef 1))) 1)"
    and "2 \<notin> set (Author_articles (snd (Article_author_set demo_state 2 (AuthorRef 1))) 0)"
    using moved by simp_all
  moreover have "Author_articles demo_state 0 = [1, 2, 4]"
    and "Author_articles demo_state 1 = [0, 3, 5]"
    by (simp_all add: demo_state_eq Author_articles_def Article_author_get_def)
  moreover have "Author_articles (snd (Article_author_set demo_state 2 (AuthorRef 1))) 0 = [1, 4]"
    and "Author_articles (snd (Article_author_set demo_state 2 (AuthorRef 1))) 1 = [0, 2, 3, 5]"
    by (simp_all add: demo_state_eq Author_articles_def Article_author_get_def
        Article_author_set_def)
  ultimately show ?thesis
    using mem wf_demo_state by simp
qed


text \<open>
  C7. \<^verbatim>\<open>author.topic_areas()\<close> is \<^verbatim>\<open>None\<close> exactly when the author has no
  articles; otherwise it is a list, never empty and without repetition, of the
  categories of the magazines of the author's articles.
\<close>

theorem Author_topic_areas_absent_or_categories:
  "(Author_topic_areas s a = None \<longleftrightarrow> Author_articles s a = []) \<and>
   (\<forall>cs. Author_topic_areas s a = Some cs \<longrightarrow>
      cs \<noteq> [] \<and> distinct cs \<and>
      set cs = (\<lambda>x. Magazine_category_get s (Article_magazine_get s x)) ` set (Author_articles s a))"
  by (auto simp: Author_topic_areas_def list_of_set_def)



theorem Author_topic_areas_absent_or_categories_witness:
  "Author_articles (step demo_state (New_Author (PyStr ''Esi''))) 2 = [] \<and>
   Author_topic_areas (step demo_state (New_Author (PyStr ''Esi''))) 2 = None \<and>
   (\<exists>cs. Author_topic_areas demo_state 1 = Some cs \<and> cs \<noteq> [] \<and>
      set cs = {''Tech'', ''Fashion''})"
proof -
  have none: "Author_articles (step demo_state (New_Author (PyStr ''Esi''))) 2 = []"
    by (simp add: demo_state_eq Author_articles_def Article_author_get_def Author_init_def)
  with Author_topic_areas_absent_or_categories
    [of "step demo_state (New_Author (PyStr ''Esi''))" 2]
  have absent: "Author_topic_areas (step demo_state (New_Author (PyStr ''Esi''))) 2 = None"
    by simp
  have arts: "Author_articles demo_state 1 = [0, 3, 5]"
    by (simp add: demo_state_eq Author_articles_def Article_author_get_def)
  then obtain cs where cs: "Author_topic_areas demo_state 1 = Some cs"
    by (simp add: Author_topic_areas_def)
  have cats: "(\<lambda>x. Magazine_category_get demo_state (Article_magazine_get demo_state x)) `
      set (Author_articles demo_state 1) = {''Tech'', ''Fashion''}"
    unfolding arts
    by (simp add: demo_state_eq Magazine_category_get_def Article_magazine_get_def)
  from Author_topic_areas_absent_or_categories [of demo_state 1, THEN conjunct2, rule_format, OF cs]
  have "cs \<noteq> [] \<and> set cs = {''Tech'', ''Fashion''}"
    using cats by simp
  with none absent cs show ?thesis
    by simp
qed

section \<open>The counting loop and the first maximum\<close>

lemma keys_dict_set:
  "map fst (dict_set d k v) = (if k \<in> fst ` set d then map fst d else map fst d @ [k])"
  by (induction d) force+

lemma map_of_dict_set: "map_of (dict_set d k v) = (map_of d)(k \<mapsto> v)"
  by (induction d) auto

lemma dict_get_map_of:
  "dict_get d k v = (case map_of d k of None \<Rightarrow> v | Some w \<Rightarrow> w)"
  by (induction d) auto

lemma count_loop_snoc:
  "count_loop (xs @ [x]) d =
     dict_set (count_loop xs d) x (dict_get (count_loop xs d) x 0 + 1)"
  by (induction xs arbitrary: d) simp_all

lemma map_of_count_loop:
  "map_of (count_loop xs []) k = (if k \<in> set xs then Some (count_list xs k) else None)"
proof (induction xs arbitrary: k rule: rev_induct)
  case Nil
  then show ?case by simp
next
  case (snoc x xs)
  then show ?case
    by (simp add: count_loop_snoc map_of_dict_set dict_get_map_of)
qed

lemma keys_count_loop: "fst ` set (count_loop xs []) = set xs"
proof -
  have "dom (map_of (count_loop xs [])) = set xs"
    by (auto simp: map_of_count_loop dom_def)
  then show ?thesis
    by (simp add: dom_map_of_conv_image_fst)
qed

lemma keys_count_loop_snoc:
  "map fst (count_loop (xs @ [x]) []) =
     (if x \<in> set xs then map fst (count_loop xs []) else map fst (count_loop xs []) @ [x])"
  by (simp add: count_loop_snoc keys_dict_set keys_count_loop)

lemma distinct_keys_count_loop: "distinct (map fst (count_loop xs []))"
proof (induction xs rule: rev_induct)
  case Nil
  then show ?case by simp
next
  case (snoc x xs)
  then show ?case
    using keys_count_loop [of xs] by (simp add: keys_count_loop_snoc del: count_loop.simps)
qed

lemma in_count_loop_iff:
  "(k, c) \<in> set (count_loop xs []) \<longleftrightarrow> k \<in> set xs \<and> c = count_list xs k"
  using map_of_eq_Some_iff [OF distinct_keys_count_loop, of xs k c]
  by (auto simp: map_of_count_loop split: if_splits)

text \<open>The keys come in the order in which they first occur in the list counted.\<close>

lemma keys_count_loop_first:
  "map fst (count_loop xs []) = kpre @ k # kpost \<Longrightarrow>
   \<exists>pre post. xs = pre @ k # post \<and> set pre \<subseteq> set kpre"
proof (induction xs arbitrary: kpost rule: rev_induct)
  case Nil
  then show ?case by simp
next
  case (snoc x xs)
  show ?case
  proof (cases "x \<in> set xs")
    case True
    with snoc.prems have "map fst (count_loop xs []) = kpre @ k # kpost"
      by (simp add: keys_count_loop_snoc del: count_loop.simps)
    from snoc.IH [OF this] obtain pre post where "xs = pre @ k # post" "set pre \<subseteq> set kpre"
      by blast
    then have "xs @ [x] = pre @ k # (post @ [x]) \<and> set pre \<subseteq> set kpre"
      by simp
    then show ?thesis by blast
  next
    case False
    with snoc.prems have eq: "map fst (count_loop xs []) @ [x] = kpre @ k # kpost"
      by (simp add: keys_count_loop_snoc del: count_loop.simps)
    show ?thesis
    proof (cases kpost rule: rev_cases)
      case Nil
      with eq have "map fst (count_loop xs []) = kpre" and "x = k"
        by simp_all
      then have "set xs \<subseteq> set kpre"
        using keys_count_loop [of xs] by (metis set_map subset_refl)
      with \<open>x = k\<close> have "xs @ [x] = xs @ k # [] \<and> set xs \<subseteq> set kpre"
        by simp
      then show ?thesis by blast
    next
      case (snoc kpost' y)
      with eq have "map fst (count_loop xs []) = kpre @ k # kpost'"
        by simp
      from snoc.IH [OF this] obtain pre post where "xs = pre @ k # post" "set pre \<subseteq> set kpre"
        by blast
      then have "xs @ [x] = pre @ k # (post @ [x]) \<and> set pre \<subseteq> set kpre"
        by simp
      then show ?thesis by blast
    qed
  qed
qed

lemma max_from_first:
  "\<exists>pre post. best # xs = pre @ max_from key best xs # post \<and>
     (\<forall>y\<in>set pre. key y < key (max_from key best xs)) \<and>
     (\<forall>y\<in>set post. key y \<le> key (max_from key best xs))"
proof (induction xs arbitrary: best)
  case Nil
  have "[best] = [] @ best # []" by simp
  then show ?case by fastforce
next
  case (Cons x xs)
  show ?case
  proof (cases "key x > key best")
    case True
    let ?r = "max_from key x xs"
    from Cons.IH [of x] obtain pre post where
      split: "x # xs = pre @ ?r # post"
      and pre: "\<forall>y\<in>set pre. key y < key ?r"
      and post: "\<forall>y\<in>set post. key y \<le> key ?r"
      by blast
    have "x \<in> set (pre @ ?r # post)"
      using split by (metis list.set_intros(1))
    then have "key x \<le> key ?r"
      using pre post by auto
    with True have "key best < key ?r" by simp
    with pre have "\<forall>y\<in>set (best # pre). key y < key ?r" by simp
    moreover have "best # x # xs = (best # pre) @ ?r # post"
      using split by simp
    ultimately show ?thesis
      using True post by (metis max_from.simps(2))
  next
    case False
    let ?r = "max_from key best xs"
    from Cons.IH [of best] obtain pre post where
      split: "best # xs = pre @ ?r # post"
      and pre: "\<forall>y\<in>set pre. key y < key ?r"
      and post: "\<forall>y\<in>set post. key y \<le> key ?r"
      by blast
    have r: "max_from key best (x # xs) = ?r"
      using False by simp
    show ?thesis
    proof (cases pre)
      case Nil
      with split have "best = ?r" and "xs = post"
        by (metis append_Nil list.inject)+
      then have "best # x # xs = [] @ ?r # (x # post)" by simp
      moreover have "\<forall>y\<in>set (x # post). key y \<le> key ?r"
        using post False \<open>best = ?r\<close> by auto
      ultimately show ?thesis
        unfolding r by (metis empty_iff empty_set)
    next
      case (Cons b pre')
      with split have "b = best" and "xs = pre' @ ?r # post"
        by (metis append_Cons list.inject)+
      then have "best # x # xs = (best # x # pre') @ ?r # post" by simp
      moreover have "key best < key ?r"
        using pre Cons \<open>b = best\<close> by simp
      then have "\<forall>y\<in>set (best # x # pre'). key y < key ?r"
        using pre Cons False by auto
      ultimately show ?thesis
        unfolding r using post by blast
    qed
  qed
qed


lemma count_list_map: "count_list (map f ys) k = length (filter (\<lambda>y. f y = k) ys)"
  by (induction ys) auto

section \<open>The top publisher\<close>

lemma count_list_magazines:
  "count_list (map (Article_magazine_get s) (Article_all s)) m = length (Magazine_articles s m)"
  by (simp add: count_list_map Magazine_articles_def)

lemma top_publisher_None: "Magazine_top_publisher s = None \<longleftrightarrow> Article_all s = []"
proof (cases "Article_all s = []")
  case True
  then show ?thesis by (simp add: Magazine_top_publisher_def)
next
  case False
  then have "fst ` set (count_loop (map (Article_magazine_get s) (Article_all s)) []) \<noteq> {}"
    unfolding keys_count_loop by simp
  then have "count_loop (map (Article_magazine_get s) (Article_all s)) [] \<noteq> []"
    by auto
  with False show ?thesis
    by (auto simp: Magazine_top_publisher_def split: list.splits)
qed

lemma top_publisher_Some:
  assumes "Magazine_top_publisher s = Some m"
  shows "\<exists>pre post. map (Article_magazine_get s) (Article_all s) = pre @ m # post \<and>
           (\<forall>k\<in>set pre. length (Magazine_articles s k) < length (Magazine_articles s m)) \<and>
           (\<forall>k. length (Magazine_articles s k) \<le> length (Magazine_articles s m))"
proof -
  let ?xs = "map (Article_magazine_get s) (Article_all s)"
  let ?D = "count_loop ?xs []"
  from assms obtain item items where D: "?D = item # items"
    and m: "m = fst (max_from snd item items)"
    by (auto simp: Magazine_top_publisher_def split: if_splits list.splits)
  define r where "r = max_from snd item items"
  from max_from_first [of item items snd] obtain dpre dpost where
    split: "?D = dpre @ r # dpost"
    and before: "\<forall>y\<in>set dpre. snd y < snd r"
    and after: "\<forall>y\<in>set dpost. snd y \<le> snd r"
    unfolding r_def D by blast
  have cnt: "c = length (Magazine_articles s k)" if "(k, c) \<in> set ?D" for k c
    using that by (simp only: in_count_loop_iff count_list_magazines)
  have "(m, snd r) \<in> set ?D"
    unfolding split m r_def [symmetric] by simp
  then have r: "snd r = length (Magazine_articles s m)"
    by (rule cnt)
  have "map fst ?D = map fst dpre @ m # map fst dpost"
    unfolding split m r_def [symmetric] by simp
  from keys_count_loop_first [OF this] obtain pre post where
    xs: "?xs = pre @ m # post" and pre: "set pre \<subseteq> set (map fst dpre)"
    by blast
  have "length (Magazine_articles s k) < length (Magazine_articles s m)" if "k \<in> set pre" for k
  proof -
    from that pre obtain c where kc: "(k, c) \<in> set dpre"
      by auto
    then have "(k, c) \<in> set ?D"
      unfolding split by simp
    then have "c = length (Magazine_articles s k)"
      by (rule cnt)
    with before kc r show ?thesis by fastforce
  qed
  moreover have "length (Magazine_articles s k) \<le> length (Magazine_articles s m)" for k
  proof (cases "k \<in> set ?xs")
    case True
    then have "(k, length (Magazine_articles s k)) \<in> set ?D"
      by (simp only: in_count_loop_iff count_list_magazines)
    then have "(k, length (Magazine_articles s k)) \<in> set dpre \<union> {r} \<union> set dpost"
      unfolding split by auto
    with before after r show ?thesis by fastforce
  next
    case False
    then have "count_list ?xs k = 0"
      by (simp add: count_list_0_iff)
    then show ?thesis
      by (simp only: count_list_magazines)
  qed
  ultimately show ?thesis
    using xs by blast
qed


lemma tie_state_eq:
  "tie_state =
    \<lparr>Author_objs = [\<lparr>Author_name = ''Ama''\<rparr>],
     Magazine_objs =
       [\<lparr>Magazine_name = ''Vogue'', Magazine_category = ''Fashion''\<rparr>,
        \<lparr>Magazine_name = ''Wired'', Magazine_category = ''Tech''\<rparr>,
        \<lparr>Magazine_name = ''Granta'', Magazine_category = ''Books''\<rparr>],
     Article_objs =
       [\<lparr>Article_title = ''Short story'', Article_author = 0, Article_magazine = 2\<rparr>,
        \<lparr>Article_title = ''Spring looks'', Article_author = 0, Article_magazine = 0\<rparr>,
        \<lparr>Article_title = ''Chips today'', Article_author = 0, Article_magazine = 1\<rparr>,
        \<lparr>Article_title = ''Summer looks'', Article_author = 0, Article_magazine = 0\<rparr>,
        \<lparr>Article_title = ''Chips tomorrow'', Article_author = 0, Article_magazine = 1\<rparr>],
     Author_all = [0], Magazine_all = [0, 1, 2], Article_all = [0, 1, 2, 3, 4]\<rparr>"
  by (simp add: tie_state_def tie_program_def init_state_def op_defs)

text \<open>
  C3. \<^verbatim>\<open>Magazine.top_publisher()\<close> is \<^verbatim>\<open>None\<close> exactly when \<^verbatim>\<open>Article.all\<close>
  is empty; otherwise it is a magazine that some article of \<^verbatim>\<open>Article.all\<close>
  refers to, and no magazine at all has more articles in \<^verbatim>\<open>Article.all\<close> than
  it has.
\<close>

theorem Magazine_top_publisher_maximal:
  "(Magazine_top_publisher s = None \<longleftrightarrow> Article_all s = []) \<and>
   (\<forall>m. Magazine_top_publisher s = Some m \<longrightarrow>
      (\<exists>x\<in>set (Article_all s). Article_magazine_get s x = m) \<and>
      (\<forall>m'. length (Magazine_articles s m') \<le> length (Magazine_articles s m)))"
proof (intro conjI allI impI)
  show "Magazine_top_publisher s = None \<longleftrightarrow> Article_all s = []"
    by (rule top_publisher_None)
next
  fix m m'
  assume top: "Magazine_top_publisher s = Some m"
  from top_publisher_Some [OF top] obtain pre post where
    xs: "map (Article_magazine_get s) (Article_all s) = pre @ m # post"
    and most: "\<forall>k. length (Magazine_articles s k) \<le> length (Magazine_articles s m)"
    by blast
  from xs have "m \<in> set (map (Article_magazine_get s) (Article_all s))"
    by simp
  then show "\<exists>x\<in>set (Article_all s). Article_magazine_get s x = m"
    by auto
  from most show "length (Magazine_articles s m') \<le> length (Magazine_articles s m)"
    by simp
qed

theorem Magazine_top_publisher_maximal_witness:
  "Magazine_top_publisher init_state = None \<and>
   Magazine_top_publisher demo_state = Some 0 \<and>
   length (Magazine_articles demo_state 0) = 5 \<and>
   length (Magazine_articles demo_state 1) \<le> length (Magazine_articles demo_state 0)"
proof -
  have "Article_all init_state = []"
    by (simp add: init_state_def)
  with Magazine_top_publisher_maximal [of init_state]
  have none: "Magazine_top_publisher init_state = None"
    by simp
  have top: "Magazine_top_publisher demo_state = Some 0"
    by (simp add: demo_state_eq Magazine_top_publisher_def Article_magazine_get_def)
  have five: "length (Magazine_articles demo_state 0) = 5"
    by (simp add: demo_state_eq Magazine_articles_def Article_magazine_get_def)
  from Magazine_top_publisher_maximal [of demo_state, THEN conjunct2, rule_format, OF top]
  have "length (Magazine_articles demo_state 1) \<le> length (Magazine_articles demo_state 0)"
    by blast
  with none top five show ?thesis
    by simp
qed


lemma first_split_unique:
  "pre @ x # post = pre2 @ x2 # post2 \<Longrightarrow> x \<notin> set pre2 \<Longrightarrow> x2 \<notin> set pre \<Longrightarrow>
   pre = pre2 \<and> x = x2"
  by (auto simp: append_eq_append_conv2 Cons_eq_append_conv append_eq_Cons_conv)

text \<open>
  C9. \<^verbatim>\<open>Magazine.top_publisher()\<close> returns a magazine with the maximal number of
  articles, and among the magazines that tie for that maximum the one met first by
  the scan of \<^verbatim>\<open>Article.all\<close>: every article that stands before its first
  article belongs to a magazine with strictly fewer articles, so no magazine that
  ties with it has an article that early. These two properties determine the
  result: it is the only magazine that has both.
\<close>

theorem Magazine_top_publisher_first_encountered:
  assumes "Magazine_top_publisher s = Some m"
  shows "(\<forall>m'. length (Magazine_articles s m') \<le> length (Magazine_articles s m)) \<and>
         (\<exists>pre x post. Article_all s = pre @ x # post \<and> Article_magazine_get s x = m \<and>
            (\<forall>y\<in>set pre. length (Magazine_articles s (Article_magazine_get s y)) <
                           length (Magazine_articles s m)) \<and>
            (\<forall>m'. length (Magazine_articles s m') = length (Magazine_articles s m) \<longrightarrow>
                  (\<forall>y\<in>set pre. Article_magazine_get s y \<noteq> m'))) \<and>
         (\<forall>m2. (\<forall>m'. length (Magazine_articles s m') \<le> length (Magazine_articles s m2)) \<and>
               (\<exists>pre x post. Article_all s = pre @ x # post \<and> Article_magazine_get s x = m2 \<and>
                  (\<forall>y\<in>set pre. length (Magazine_articles s (Article_magazine_get s y)) <
                                 length (Magazine_articles s m2)))
               \<longrightarrow> m2 = m)"
proof -
  let ?n = "\<lambda>k. length (Magazine_articles s k)"
  from top_publisher_Some [OF assms] obtain pre post where
    xs: "map (Article_magazine_get s) (Article_all s) = pre @ m # post"
    and fewer: "\<forall>k\<in>set pre. ?n k < ?n m"
    and most: "\<forall>k. ?n k \<le> ?n m"
    by blast
  from xs obtain us x vs where split: "Article_all s = us @ x # vs"
    and pre: "pre = map (Article_magazine_get s) us" and x: "Article_magazine_get s x = m"
    by (auto simp: map_eq_append_conv map_eq_Cons_conv)
  from fewer pre have strict: "\<forall>y\<in>set us. ?n (Article_magazine_get s y) < ?n m"
    by simp
  then have tied: "\<forall>m'. ?n m' = ?n m \<longrightarrow> (\<forall>y\<in>set us. Article_magazine_get s y \<noteq> m')"
    by fastforce
  have only: "m2 = m"
    if most2: "\<forall>m'. ?n m' \<le> ?n m2"
      and split2: "Article_all s = us2 @ x2 # vs2"
      and x2: "Article_magazine_get s x2 = m2"
      and strict2: "\<forall>y\<in>set us2. ?n (Article_magazine_get s y) < ?n m2"
    for m2 us2 x2 vs2
  proof -
    have a: "x \<notin> set us2"
    proof
      assume "x \<in> set us2"
      with strict2 have "?n (Article_magazine_get s x) < ?n m2" by (rule bspec)
      then have "?n m < ?n m2" by (simp only: x)
      moreover from most have "?n m2 \<le> ?n m" by (rule spec)
      ultimately show False by simp
    qed
    have b: "x2 \<notin> set us"
    proof
      assume "x2 \<in> set us"
      with strict have "?n (Article_magazine_get s x2) < ?n m" by (rule bspec)
      then have "?n m2 < ?n m" by (simp only: x2)
      moreover from most2 have "?n m \<le> ?n m2" by (rule spec)
      ultimately show False by simp
    qed
    from split split2 have "us @ x # vs = us2 @ x2 # vs2"
      by simp
    from first_split_unique [OF this a b] have "x = x2"
      by (rule conjunct2)
    with x x2 show ?thesis by simp
  qed
  have ex: "\<exists>pre x post. Article_all s = pre @ x # post \<and> Article_magazine_get s x = m \<and>
      (\<forall>y\<in>set pre. ?n (Article_magazine_get s y) < ?n m) \<and>
      (\<forall>m'. ?n m' = ?n m \<longrightarrow> (\<forall>y\<in>set pre. Article_magazine_get s y \<noteq> m'))"
    by (intro exI [of _ us] exI [of _ x] exI [of _ vs] conjI) (rule split x strict tied)+
  have uniq: "\<forall>m2. (\<forall>m'. ?n m' \<le> ?n m2) \<and>
      (\<exists>pre x post. Article_all s = pre @ x # post \<and> Article_magazine_get s x = m2 \<and>
         (\<forall>y\<in>set pre. ?n (Article_magazine_get s y) < ?n m2)) \<longrightarrow> m2 = m"
  proof (intro allI impI)
    fix m2
    assume h: "(\<forall>m'. ?n m' \<le> ?n m2) \<and>
      (\<exists>pre x post. Article_all s = pre @ x # post \<and> Article_magazine_get s x = m2 \<and>
         (\<forall>y\<in>set pre. ?n (Article_magazine_get s y) < ?n m2))"
    then have most2: "\<forall>m'. ?n m' \<le> ?n m2"
      by (rule conjunct1)
    from h obtain us2 x2 vs2 where "Article_all s = us2 @ x2 # vs2"
      and "Article_magazine_get s x2 = m2"
      and "\<forall>y\<in>set us2. ?n (Article_magazine_get s y) < ?n m2"
      by (elim conjE exE)
    with most2 show "m2 = m"
      by (rule only)
  qed
  from most ex uniq show ?thesis
    by (intro conjI)
qed

theorem Magazine_top_publisher_first_encountered_witness:
  "Magazine_top_publisher tie_state = Some 0 \<and>
   length (Magazine_articles tie_state 0) = 2 \<and>
   length (Magazine_articles tie_state 1) = 2 \<and>
   length (Magazine_articles tie_state 2) = 1 \<and>
   Article_all tie_state = [0] @ 1 # [2, 3, 4] \<and>
   Article_magazine_get tie_state 0 = 2 \<and>
   Article_magazine_get tie_state 1 = 0 \<and>
   (\<forall>m'. length (Magazine_articles tie_state m') \<le> length (Magazine_articles tie_state 0)) \<and>
   (\<exists>pre x post. Article_all tie_state = pre @ x # post \<and>
      Article_magazine_get tie_state x = 0 \<and>
      (\<forall>y\<in>set pre. Article_magazine_get tie_state y \<noteq> 1))"
proof -
  have top: "Magazine_top_publisher tie_state = Some 0"
    by (simp add: tie_state_eq Magazine_top_publisher_def Article_magazine_get_def)
  have n0: "length (Magazine_articles tie_state 0) = 2"
    and n1: "length (Magazine_articles tie_state 1) = 2"
    and n2: "length (Magazine_articles tie_state 2) = 1"
    by (simp_all add: tie_state_eq Magazine_articles_def Article_magazine_get_def)
  have scan: "Article_all tie_state = [0] @ 1 # [2, 3, 4]"
    and mag0: "Article_magazine_get tie_state 0 = 2"
    and mag1: "Article_magazine_get tie_state 1 = 0"
    by (simp_all add: tie_state_eq Article_magazine_get_def)
  note first = Magazine_top_publisher_first_encountered [OF top]
  from first have most:
    "\<forall>m'. length (Magazine_articles tie_state m') \<le> length (Magazine_articles tie_state 0)"
    by (rule conjunct1)
  from first [THEN conjunct2, THEN conjunct1] obtain pre x post where
    split: "Article_all tie_state = pre @ x # post"
    and x: "Article_magazine_get tie_state x = 0"
    and tied: "\<forall>m'. length (Magazine_articles tie_state m') =
        length (Magazine_articles tie_state 0) \<longrightarrow>
        (\<forall>y\<in>set pre. Article_magazine_get tie_state y \<noteq> m')"
    by (elim exE conjE)
  from tied have "length (Magazine_articles tie_state 1) = length (Magazine_articles tie_state 0)
      \<longrightarrow> (\<forall>y\<in>set pre. Article_magazine_get tie_state y \<noteq> 1)"
    by (rule spec)
  with n0 n1 have "\<forall>y\<in>set pre. Article_magazine_get tie_state y \<noteq> 1"
    by simp
  with split x have ex: "\<exists>pre x post. Article_all tie_state = pre @ x # post \<and>
      Article_magazine_get tie_state x = 0 \<and>
      (\<forall>y\<in>set pre. Article_magazine_get tie_state y \<noteq> 1)"
    by (intro exI conjI)
  from top n0 n1 n2 scan mag0 mag1 most ex show ?thesis
    by (intro conjI)
qed

section \<open>The contributing authors of a magazine\<close>

text \<open>
  C4. \<^verbatim>\<open>magazine.contributing_authors()\<close> is \<^verbatim>\<open>None\<close> exactly when no author
  has more than two articles in the magazine; otherwise it is a list, never empty
  and without repetition, of exactly the authors with more than two articles in the
  magazine, so an author with exactly two is not in it.
\<close>

theorem Magazine_contributing_authors_exact:
  "(Magazine_contributing_authors s m = None \<longleftrightarrow>
      (\<forall>a. \<not> 2 < length (filter (\<lambda>x. Article_author_get s x = a) (Magazine_articles s m)))) \<and>
   (\<forall>as. Magazine_contributing_authors s m = Some as \<longrightarrow>
      as \<noteq> [] \<and> distinct as \<and>
      set as = {a. 2 < length (filter (\<lambda>x. Article_author_get s x = a) (Magazine_articles s m))} \<and>
      (\<forall>a. length (filter (\<lambda>x. Article_author_get s x = a) (Magazine_articles s m)) = 2 \<longrightarrow>
           a \<notin> set as))"
proof -
  let ?xs = "map (Article_author_get s) (Magazine_articles s m)"
  let ?D = "count_loop ?xs []"
  let ?P = "map fst (filter (\<lambda>(author, count). count > 2) ?D)"
  let ?n = "\<lambda>a. length (filter (\<lambda>x. Article_author_get s x = a) (Magazine_articles s m))"
  have n: "count_list ?xs a = ?n a" for a
    by (rule count_list_map)
  have res: "Magazine_contributing_authors s m = (if ?P = [] then None else Some ?P)"
    by (simp add: Magazine_contributing_authors_def Let_def)
  have "set ?P = {a. \<exists>c. (a, c) \<in> set ?D \<and> 2 < c}"
    by force
  also have "\<dots> = {a. a \<in> set ?xs \<and> 2 < count_list ?xs a}"
    by (simp only: in_count_loop_iff) blast
  also have "\<dots> = {a. 2 < count_list ?xs a}"
    by (auto simp: count_list_0_iff intro: ccontr)
  finally have set_P: "set ?P = {a. 2 < ?n a}"
    by (simp only: n)
  have dist: "distinct ?P"
    using distinct_keys_count_loop [of ?xs] by (rule distinct_map_filter)
  have "?P = [] \<longleftrightarrow> (\<forall>a. \<not> 2 < ?n a)"
    using set_P by (metis (mono_tags, lifting) Collect_empty_eq set_empty)
  with res set_P dist show ?thesis
    by auto
qed

theorem Magazine_contributing_authors_exact_witness:
  "Magazine_contributing_authors demo_state 0 = Some [0] \<and>
   length (filter (\<lambda>x. Article_author_get demo_state x = 0) (Magazine_articles demo_state 0)) = 3 \<and>
   length (filter (\<lambda>x. Article_author_get demo_state x = 1) (Magazine_articles demo_state 0)) = 2 \<and>
   1 \<notin> set [0::nat] \<and>
   Magazine_contributing_authors demo_state 1 = None"
proof -
  have some: "Magazine_contributing_authors demo_state 0 = Some [0]"
    by (simp add: demo_state_eq Magazine_contributing_authors_def Magazine_articles_def
        Article_magazine_get_def Article_author_get_def)
  have three: "length (filter (\<lambda>x. Article_author_get demo_state x = 0)
      (Magazine_articles demo_state 0)) = 3"
    and two: "length (filter (\<lambda>x. Article_author_get demo_state x = 1)
      (Magazine_articles demo_state 0)) = 2"
    by (simp_all add: demo_state_eq Magazine_articles_def Article_magazine_get_def
        Article_author_get_def)
  from Magazine_contributing_authors_exact [of demo_state 0, THEN conjunct2, rule_format, OF some]
    two
  have "1 \<notin> set [0::nat]"
    by blast
  moreover have "Magazine_contributing_authors demo_state 1 = None"
    by (simp add: demo_state_eq Magazine_contributing_authors_def Magazine_articles_def
        Article_magazine_get_def Article_author_get_def)
  ultimately show ?thesis
    using some three two by simp
qed

end
